theory Spec2Isabelle
  imports Main "HOL-Library.Char_ord" "HOL-Library.List_Lexorder"
    "HOL-Library.Product_Lexorder" "HOL-Library.Option_ord"
begin

section \<open>The graph snapshot\<close>

text \<open>
  The analysers read a Neo4j database through Cypher queries. The snapshot is the content
  of that database: the nodes labelled \<^verbatim>\<open>Asset\<close> with the properties the queries
  read, and the typed, directed relationships between them. A node is identified by its
  position in \<open>assets\<close>, a relationship by its position in \<open>relationships\<close>.
  Every asset carries \<^verbatim>\<open>name\<close>, \<^verbatim>\<open>type\<close> and \<^verbatim>\<open>status\<close> (the
  data model's invariant); a property that may be missing on a node is an \<open>option\<close>
  (Cypher's \<^verbatim>\<open>null\<close>, Python's \<^verbatim>\<open>None\<close>).
\<close>

record asset =
  a_name :: string
  a_type :: string
  a_status :: string
  a_ipAddress :: "string option"
  a_version :: "string option"
  a_configChecksum :: "string option"
  a_securityZone :: "string option"
  a_failureReason :: "string option"

record relationship =
  r_start :: nat
  r_type :: string
  r_end :: nat

record snapshot =
  assets :: "asset list"
  relationships :: "relationship list"

definition nodes :: "snapshot \<Rightarrow> nat list" where
  "nodes g = [0..<length (assets g)]"

text \<open>\<^verbatim>\<open>MATCH (x:Asset {name: $assetName})\<close>: every node of that name, in scan order.\<close>

definition match_name :: "snapshot \<Rightarrow> string \<Rightarrow> nat list" where
  "match_name g asset_name = filter (\<lambda>v. a_name (assets g ! v) = asset_name) (nodes g)"

text \<open>\<^verbatim>\<open>Result.single()\<close> of the driver: the first record, or \<^verbatim>\<open>None\<close>.\<close>

definition single :: "'a list \<Rightarrow> 'a option" where
  "single rows = (case rows of [] \<Rightarrow> None | r # _ \<Rightarrow> Some r)"

subsection \<open>Variable-length patterns\<close>

text \<open>
  \<^verbatim>\<open>(a)-[:T1|T2*1..n]->(b)\<close> matches every path of 1 to \<open>n\<close> relationships whose
  types are among the listed ones, all followed along their direction, and in which no
  relationship occurs twice (nodes may repeat). \<open>expand\<close> enumerates these paths from
  one anchored end, depth first in the order of \<open>relationships\<close>; a path is the list
  of its relationships as walked from the anchor. With \<open>Outgoing\<close> the anchor is the
  start node of the pattern, with \<open>Incoming\<close> it is the end node and the path is
  walked against the arrows.
\<close>

datatype direction = Outgoing | Incoming

fun near_node :: "direction \<Rightarrow> relationship \<Rightarrow> nat" where
  "near_node Outgoing r = r_start r"
| "near_node Incoming r = r_end r"

fun far_node :: "direction \<Rightarrow> relationship \<Rightarrow> nat" where
  "far_node Outgoing r = r_end r"
| "far_node Incoming r = r_start r"

definition usable :: "snapshot \<Rightarrow> string list \<Rightarrow> nat \<Rightarrow> bool" where
  "usable g kinds i =
     (i < length (relationships g) \<and>
      r_type (relationships g ! i) \<in> set kinds \<and>
      r_start (relationships g ! i) < length (assets g) \<and>
      r_end (relationships g ! i) < length (assets g))"

fun expand :: "snapshot \<Rightarrow> string list \<Rightarrow> direction \<Rightarrow> nat \<Rightarrow> nat \<Rightarrow> nat list \<Rightarrow> nat list list" where
  "expand g kinds d 0 v used = []"
| "expand g kinds d (Suc n) v used =
     concat (map (\<lambda>i.
        if usable g kinds i \<and> near_node d (relationships g ! i) = v \<and> i \<notin> set used
        then (used @ [i]) # expand g kinds d n (far_node d (relationships g ! i)) (used @ [i])
        else [])
      [0..<length (relationships g)])"

definition var_length :: "snapshot \<Rightarrow> string list \<Rightarrow> direction \<Rightarrow> nat \<Rightarrow> nat \<Rightarrow> nat list list" where
  "var_length g kinds d n v = expand g kinds d n v []"

text \<open>The nodes a path visits after its anchor, and the node it stops at.\<close>

definition path_nodes :: "snapshot \<Rightarrow> direction \<Rightarrow> nat list \<Rightarrow> nat list" where
  "path_nodes g d p = map (\<lambda>i. far_node d (relationships g ! i)) p"

definition path_end :: "snapshot \<Rightarrow> direction \<Rightarrow> nat \<Rightarrow> nat list \<Rightarrow> nat" where
  "path_end g d v p = last (v # path_nodes g d p)"

subsection \<open>Hop counts\<close>

text \<open>
  The graph-theoretic notions the specification speaks in: the nodes \<open>k\<close> hops away
  from \<open>v\<close> (over relationships of the given types, along or against their direction),
  the nodes within \<open>n\<close> hops, and the least number of hops (at least one, at most
  \<open>n\<close>) to a node, if it is within \<open>n\<close> hops.
\<close>

definition neighbours :: "snapshot \<Rightarrow> string list \<Rightarrow> direction \<Rightarrow> nat \<Rightarrow> nat set" where
  "neighbours g kinds d v =
     set (map (\<lambda>i. far_node d (relationships g ! i))
            (filter (\<lambda>i. usable g kinds i \<and> near_node d (relationships g ! i) = v)
               [0..<length (relationships g)]))"

fun hops :: "snapshot \<Rightarrow> string list \<Rightarrow> direction \<Rightarrow> nat \<Rightarrow> nat \<Rightarrow> nat set" where
  "hops g kinds d 0 v = {v}"
| "hops g kinds d (Suc k) v = (\<Union>w \<in> hops g kinds d k v. neighbours g kinds d w)"

definition within :: "snapshot \<Rightarrow> string list \<Rightarrow> direction \<Rightarrow> nat \<Rightarrow> nat \<Rightarrow> nat set" where
  "within g kinds d n v = (\<Union>k \<in> {1..n}. hops g kinds d k v)"

definition hop_distance :: "snapshot \<Rightarrow> string list \<Rightarrow> direction \<Rightarrow> nat \<Rightarrow> nat \<Rightarrow> nat \<Rightarrow> nat option" where
  "hop_distance g kinds d n v w = find (\<lambda>k. w \<in> hops g kinds d k v) [1..<Suc n]"

text \<open>
  \<^verbatim>\<open>ORDER BY key DESC\<close> is a stable ascending sort by the negated key; Cypher puts
  \<^verbatim>\<open>null\<close> first in descending order, as \<open>None\<close> is least among options.
\<close>

definition desc :: "nat option \<Rightarrow> int option" where
  "desc k = map_option (\<lambda>n. - int n) k"

text \<open>Python's \<^verbatim>\<open>str(n)\<close> and \<^verbatim>\<open>format(n, 'x')\<close> for a natural number.\<close>

function to_base :: "nat \<Rightarrow> nat \<Rightarrow> string" where
  "to_base b n =
     (if b < 2 \<or> n < b then [''0123456789abcdef'' ! (n mod 16)]
      else to_base b (n div b) @ [''0123456789abcdef'' ! (n mod b mod 16)])"
  by pat_completeness auto
termination
  by (relation "measure snd") auto

definition str :: "nat \<Rightarrow> string" where
  "str n = to_base 10 n"

section \<open>The root-cause analyser (\<^verbatim>\<open>find_root_cause\<close>)\<close>

text \<open>
  An endpoint returns a JSON object; \<^verbatim>\<open>{"error": msg}\<close> is \<open>Error msg\<close>.
  The explanatory texts of a response (\<^verbatim>\<open>analysis\<close>, \<^verbatim>\<open>detailedAnalysis\<close>,
  \<^verbatim>\<open>teamOwnership\<close>, \<^verbatim>\<open>plainEnglish\<close>, \<^verbatim>\<open>detailedBreakdown\<close>) are
  formatted from the fields modelled here and are left out.
\<close>

datatype 'a response = Error string | Result 'a

definition unhealthy :: "string list" where
  "unhealthy = [''offline'', ''error'', ''failed'', ''unreachable'', ''degraded'', ''warning'']"

definition rca_kinds :: "string list" where
  "rca_kinds = [''POWERS'', ''CONNECTS_TO'', ''FEEDS_DATA'', ''DEPENDS_ON'']"

record chain_node =
  n_name :: string
  n_type :: string
  n_status :: string
  n_failureReason :: "string option"

record rca =
  targetAsset :: string
  targetStatus :: "string option"
  rootCause :: string
  rootCauseType :: string
  rootCauseStatus :: string
  rootCauseReason :: "string option"
  rootCauseZone :: "string option"
  failureDepth :: nat
  failureChain :: "chain_node list"
  relationshipTypes :: "string list option"

text \<open>
  The rows of \<^verbatim>\<open>MATCH (target) OPTIONAL MATCH path = (root)-[...*1..5]->(target) WHERE
  root.status IN [...]\<close>: for every target of that name its matching paths, walked from the
  target against the arrows, or one row with a \<^verbatim>\<open>null\<close> path when it has none.
\<close>

definition rca_rows :: "snapshot \<Rightarrow> string \<Rightarrow> (nat \<times> nat list option) list" where
  "rca_rows g asset_name =
     concat (map (\<lambda>t.
        let paths = filter (\<lambda>p. a_status (assets g ! path_end g Incoming t p) \<in> set unhealthy)
                      (var_length g rca_kinds Incoming 5 t)
        in if paths = [] then [(t, None)] else map (\<lambda>p. (t, Some p)) paths)
      (match_name g asset_name))"

text \<open>\<^verbatim>\<open>ORDER BY depth DESC LIMIT 1\<close>, with \<^verbatim>\<open>depth = length(path)\<close>.\<close>

definition deepest :: "(nat \<times> nat list option) list \<Rightarrow> (nat \<times> nat list option) list" where
  "deepest rows = take 1 (sort_key (\<lambda>row. desc (map_option length (snd row))) rows)"

definition chain_node_of :: "snapshot \<Rightarrow> nat \<Rightarrow> chain_node" where
  "chain_node_of g v =
     \<lparr>n_name = a_name (assets g ! v), n_type = a_type (assets g ! v),
      n_status = a_status (assets g ! v), n_failureReason = a_failureReason (assets g ! v)\<rparr>"

text \<open>The map the query returns for a row with a path; \<open>nodes(path)\<close> runs root first.\<close>

definition rca_of_path :: "snapshot \<Rightarrow> nat \<Rightarrow> nat list \<Rightarrow> rca" where
  "rca_of_path g t p =
     (let root = assets g ! path_end g Incoming t p in
      \<lparr>targetAsset = a_name (assets g ! t),
       targetStatus = Some (a_status (assets g ! t)),
       rootCause = a_name root,
       rootCauseType = a_type root,
       rootCauseStatus = a_status root,
       rootCauseReason = a_failureReason root,
       rootCauseZone = a_securityZone root,
       failureDepth = length p,
       failureChain = map (chain_node_of g) (rev (t # path_nodes g Incoming p)),
       relationshipTypes = Some (map (\<lambda>i. r_type (relationships g ! i)) (rev p))\<rparr>)"

text \<open>The isolated-failure answer, built from the second query's first record.\<close>

definition isolated_failure :: "snapshot \<Rightarrow> string \<Rightarrow> rca response" where
  "isolated_failure g asset_name =
     (case single (match_name g asset_name) of
        None \<Rightarrow> Error ''Asset not found''
      | Some v \<Rightarrow>
          Result \<lparr>targetAsset = asset_name,
                  targetStatus = None,
                  rootCause = asset_name,
                  rootCauseType = a_type (assets g ! v),
                  rootCauseStatus = a_status (assets g ! v),
                  rootCauseReason =
                    Some (case a_failureReason (assets g ! v) of
                            None \<Rightarrow> ''No specific reason provided''
                          | Some r \<Rightarrow> if r = [] then ''No specific reason provided'' else r),
                  rootCauseZone =
                    Some (case a_securityZone (assets g ! v) of
                            None \<Rightarrow> ''Unassigned''
                          | Some z \<Rightarrow> if z = [] then ''Unassigned'' else z),
                  failureDepth = 0,
                  failureChain = [],
                  relationshipTypes = None\<rparr>)"

text \<open>
  \<^verbatim>\<open>if record and record["rca"]["rootCause"]\<close>: there is a row, its path is not
  \<^verbatim>\<open>null\<close>, and the root's name is not the empty string.
\<close>

definition find_root_cause :: "snapshot \<Rightarrow> string \<Rightarrow> rca response" where
  "find_root_cause g asset_name =
     (case single (deepest (rca_rows g asset_name)) of
        Some (t, Some p) \<Rightarrow>
          if rootCause (rca_of_path g t p) \<noteq> [] then Result (rca_of_path g t p)
          else isolated_failure g asset_name
      | _ \<Rightarrow> isolated_failure g asset_name)"

section \<open>The cascade-impact analyser (\<^verbatim>\<open>analyze_cascade_impact\<close>)\<close>

definition cascade_kinds :: "string list" where
  "cascade_kinds = [''POWERS'', ''CONNECTS_TO'', ''FEEDS_DATA'', ''DEPENDS_ON'', ''CONTROLS'']"

record affected_asset =
  f_name :: string
  f_type :: string
  f_status :: string
  f_ipAddress :: "string option"
  f_distance :: nat
  f_isAffected :: bool

record impact =
  sourceAsset :: string
  sourceType :: string
  sourceStatus :: string
  sourceIp :: "string option"
  totalDownstream :: nat
  currentlyAffected :: nat
  potentialImpact :: nat
  impactRadius :: nat
  allAffectedAssets :: "affected_asset list"
  severity :: string

text \<open>
  The rows of the second query, one per path: the node reached and the length of the
  path, \<^verbatim>\<open>ORDER BY affected.name, length(path)\<close>.
\<close>

definition paths_result :: "snapshot \<Rightarrow> string \<Rightarrow> (nat \<times> nat) list" where
  "paths_result g asset_name =
     sort_key (\<lambda>row. (a_name (assets g ! fst row), snd row))
       (concat (map (\<lambda>s. map (\<lambda>p. (path_end g Outgoing s p, length p))
                              (var_length g cascade_kinds Outgoing 5 s))
                  (match_name g asset_name)))"

text \<open>
  The loop filling \<^verbatim>\<open>assets_map\<close>: a dictionary keyed by name, in insertion order,
  that keeps the first record of every name. \<open>affected_of\<close> is the dictionary the
  loop builds from a row.
\<close>

definition affected_of :: "snapshot \<Rightarrow> nat \<times> nat \<Rightarrow> affected_asset" where
  "affected_of g row =
     (let a = assets g ! fst row in
      \<lparr>f_name = a_name a, f_type = a_type a, f_status = a_status a,
       f_ipAddress = a_ipAddress a, f_distance = snd row,
       f_isAffected = (a_status a \<in> set [''offline'', ''error'', ''degraded'', ''warning''])\<rparr>)"

fun fill_assets_map ::
  "snapshot \<Rightarrow> (nat \<times> nat) list \<Rightarrow> (string \<times> affected_asset) list \<Rightarrow> (string \<times> affected_asset) list" where
  "fill_assets_map g [] assets_map = assets_map"
| "fill_assets_map g (row # rows) assets_map =
     fill_assets_map g rows
       (let asset_name_key = a_name (assets g ! fst row) in
        if asset_name_key \<in> fst ` set assets_map then assets_map
        else assets_map @ [(asset_name_key, affected_of g row)])"

definition analyze_cascade_impact :: "snapshot \<Rightarrow> string \<Rightarrow> impact response" where
  "analyze_cascade_impact g asset_name =
     (case single (match_name g asset_name) of
        None \<Rightarrow> Error ''Asset not found''
      | Some s \<Rightarrow>
          let all_affected = map snd (fill_assets_map g (paths_result g asset_name) []);
              currently_affected = length (filter f_isAffected all_affected);
              total_downstream = length all_affected;
              max_distance = (if all_affected = [] then 0
                              else Max (set (map f_distance all_affected)))
          in Result
            \<lparr>sourceAsset = a_name (assets g ! s),
             sourceType = a_type (assets g ! s),
             sourceStatus = a_status (assets g ! s),
             sourceIp = a_ipAddress (assets g ! s),
             totalDownstream = total_downstream,
             currentlyAffected = currently_affected,
             potentialImpact = total_downstream,
             impactRadius = max_distance,
             allAffectedAssets = all_affected,
             severity = (if total_downstream > 10 then ''critical''
                         else if total_downstream > 5 then ''high''
                         else if total_downstream > 2 then ''medium''
                         else ''low'')\<rparr>)"

section \<open>The critical-path analyser (\<^verbatim>\<open>analyze_critical_paths\<close>)\<close>

definition spof_kinds :: "string list" where
  "spof_kinds = [''POWERS'', ''CONNECTS_TO'', ''FEEDS_DATA'']"

record critical_path =
  s_asset :: string
  s_type :: string
  s_status :: string
  s_dependentCount :: nat
  s_criticalityScore :: nat
  s_isSPOF :: bool
  s_severity :: string
  s_dependencies :: "(string \<times> string \<times> string) list"
  s_recommendation :: string

text \<open>
  The nodes bound to \<^verbatim>\<open>dependent\<close> over all paths from \<^verbatim>\<open>critical\<close>, without
  repetition: \<^verbatim>\<open>count(DISTINCT dependent)\<close> is the length of this list.
\<close>

definition dependents :: "snapshot \<Rightarrow> nat \<Rightarrow> nat list" where
  "dependents g c = remdups (map (path_end g Outgoing c) (var_length g spof_kinds Outgoing 3 c))"

definition criticalityScore :: "snapshot \<Rightarrow> nat \<Rightarrow> nat" where
  "criticalityScore g c =
     length (dependents g c) +
     (if a_type (assets g ! c) \<in> set [''UPS'', ''Router'', ''NetworkSwitch''] then 10 else 0) +
     (if a_status (assets g ! c) \<in> set [''warning'', ''degraded''] then 5 else 0)"

definition criticalPath :: "snapshot \<Rightarrow> nat \<Rightarrow> critical_path" where
  "criticalPath g c =
     \<lparr>s_asset = a_name (assets g ! c),
      s_type = a_type (assets g ! c),
      s_status = a_status (assets g ! c),
      s_dependentCount = length (dependents g c),
      s_criticalityScore = criticalityScore g c,
      s_isSPOF = True,
      s_severity = (if criticalityScore g c > 20 then ''critical''
                    else if criticalityScore g c > 10 then ''high''
                    else ''medium''),
      s_dependencies =
        remdups (map (\<lambda>w. (a_name (assets g ! w), a_type (assets g ! w), a_status (assets g ! w)))
                   (dependents g c)),
      s_recommendation =
        (if a_type (assets g ! c) \<in> set [''UPS'', ''PowerSupply'']
         then ''CRITICAL: Add redundant power source''
         else if a_type (assets g ! c) \<in> set [''Router'', ''NetworkSwitch'']
         then ''HIGH: Implement network redundancy''
         else ''Consider redundancy for '' @ str (length (dependents g c)) @
              '' dependent systems'')\<rparr>"

text \<open>
  One group per \<^verbatim>\<open>critical\<close> node, \<^verbatim>\<open>WHERE dependentCount > 3\<close>,
  \<^verbatim>\<open>ORDER BY criticalityScore DESC LIMIT 10\<close>.
\<close>

definition analyze_critical_paths :: "snapshot \<Rightarrow> critical_path list" where
  "analyze_critical_paths g =
     map (criticalPath g)
       (take 10 (sort_key (\<lambda>c. - int (criticalityScore g c))
                   (filter (\<lambda>c. length (dependents g c) > 3) (nodes g))))"

section \<open>The configuration-drift detector (\<^verbatim>\<open>calculate_drift\<close>)\<close>

text \<open>
  The Python dictionaries \<^verbatim>\<open>actual\<close> and \<^verbatim>\<open>intended\<close> are read through
  \<^verbatim>\<open>.get\<close> on a fixed set of keys, so one record with a field per key models both.
  A key that is absent, or present with the value \<^verbatim>\<open>None\<close>, reads as \<open>None\<close>.
  Every asset carries \<^verbatim>\<open>name\<close>, \<^verbatim>\<open>type\<close> and \<^verbatim>\<open>status\<close>
  (the data model's invariant), so these three are plain strings.
\<close>

record config =
  c_name :: string
  c_type :: string
  c_status :: string
  c_ipAddress :: "string option"
  c_version :: "string option"
  c_configChecksum :: "string option"
  c_securityZone :: "string option"
  c_gitRepo :: "string option"
  c_gitPath :: "string option"
  c_lastCommit :: "string option"

text \<open>One entry of the list \<^verbatim>\<open>drifts\<close>.\<close>

record drift =
  d_field :: string
  d_intended :: "string option"
  d_actual :: "string option"
  d_severity :: string

text \<open>\<^verbatim>\<open>str.lower()\<close> on ASCII text.\<close>

definition lower_char :: "char \<Rightarrow> char" where
  "lower_char c =
     (case map_of (zip ''ABCDEFGHIJKLMNOPQRSTUVWXYZ'' ''abcdefghijklmnopqrstuvwxyz'') c of
        Some l \<Rightarrow> l
      | None \<Rightarrow> c)"

definition lower :: "string \<Rightarrow> string" where
  "lower s = map lower_char s"

text \<open>
  The body of the loop of \<^verbatim>\<open>calculate_drift\<close>, one block per compared field, in the
  source's order. Each block takes the triple (\<^verbatim>\<open>drifts\<close>, \<^verbatim>\<open>drift_severity\<close>,
  number of increments of \<^verbatim>\<open>critical_drift\<close>) and returns it updated.
\<close>

type_synonym drift_state = "drift list \<times> string \<times> nat"

definition status_drift :: "config \<Rightarrow> config \<Rightarrow> drift_state \<Rightarrow> drift_state" where
  "status_drift intended actual st =
     (case st of (drifts, drift_severity, crit) \<Rightarrow>
        if lower (c_status actual) \<noteq> lower (c_status intended)
        then (drifts @ [\<lparr>d_field = ''status'',
                          d_intended = Some (c_status intended),
                          d_actual = Some (c_status actual),
                          d_severity = (if c_status actual \<in> set [''offline'', ''error'', ''failed'']
                                        then ''critical'' else ''high'')\<rparr>],
              ''critical'', crit + 1)
        else st)"

definition ip_drift :: "config \<Rightarrow> config \<Rightarrow> drift_state \<Rightarrow> drift_state" where
  "ip_drift intended actual st =
     (case st of (drifts, drift_severity, crit) \<Rightarrow>
        if c_ipAddress actual \<noteq> c_ipAddress intended
        then (drifts @ [\<lparr>d_field = ''ipAddress'',
                          d_intended = c_ipAddress intended,
                          d_actual = c_ipAddress actual,
                          d_severity = ''medium''\<rparr>],
              (if drift_severity = ''none'' then ''medium'' else drift_severity), crit)
        else st)"

definition version_drift :: "config \<Rightarrow> config \<Rightarrow> drift_state \<Rightarrow> drift_state" where
  "version_drift intended actual st =
     (case st of (drifts, drift_severity, crit) \<Rightarrow>
        if c_version actual \<noteq> c_version intended
        then (drifts @ [\<lparr>d_field = ''version'',
                          d_intended = c_version intended,
                          d_actual = c_version actual,
                          d_severity = ''high''\<rparr>],
              (if drift_severity \<in> set [''none'', ''medium''] then ''high'' else drift_severity),
              crit)
        else st)"

definition checksum_drift :: "config \<Rightarrow> config \<Rightarrow> drift_state \<Rightarrow> drift_state" where
  "checksum_drift intended actual st =
     (case st of (drifts, drift_severity, crit) \<Rightarrow>
        if c_configChecksum actual \<noteq> c_configChecksum intended
        then (if c_configChecksum actual \<noteq> Some ''unknown''
              then (drifts @ [\<lparr>d_field = ''configChecksum'',
                                d_intended = c_configChecksum intended,
                                d_actual = c_configChecksum actual,
                                d_severity = ''high''\<rparr>],
                    (if drift_severity \<in> set [''none'', ''medium''] then ''high''
                     else drift_severity),
                    crit)
              else st)
        else st)"

definition zone_drift :: "config \<Rightarrow> config \<Rightarrow> drift_state \<Rightarrow> drift_state" where
  "zone_drift intended actual st =
     (case st of (drifts, drift_severity, crit) \<Rightarrow>
        if c_securityZone actual \<noteq> c_securityZone intended
        then (drifts @ [\<lparr>d_field = ''securityZone'',
                          d_intended = c_securityZone intended,
                          d_actual = c_securityZone actual,
                          d_severity = ''critical''\<rparr>],
              ''critical'', crit + 1)
        else st)"

definition detect_drifts :: "config \<Rightarrow> config \<Rightarrow> drift_state" where
  "detect_drifts intended actual =
     zone_drift intended actual
       (checksum_drift intended actual
         (version_drift intended actual
           (ip_drift intended actual
             (status_drift intended actual ([], ''none'', 0)))))"

subsection \<open>The intended configuration (\<^verbatim>\<open>get_gitops_config_for_asset\<close>)\<close>

text \<open>
  The provider answers from a fixed table, and for a name outside the table builds a
  default configuration from calls to \<^verbatim>\<open>random.randint\<close>. The generator is the
  stream \<open>rng\<close> of its raw outputs and the number \<open>k\<close> of values consumed so far; the
  provider returns the new count. The keys no analyser reads (\<^verbatim>\<open>location\<close>,
  \<^verbatim>\<open>lastUpdated\<close>, device parameters) are left out; the draw made for
  \<^verbatim>\<open>lastUpdated\<close> is still consumed.
\<close>

definition randint :: "(nat \<Rightarrow> nat) \<Rightarrow> nat \<Rightarrow> nat \<Rightarrow> nat \<Rightarrow> nat" where
  "randint rng k lo hi = lo + rng k mod (hi - lo + 1)"

definition gitops_configs :: "(string \<times> config) list" where
  "gitops_configs =
     [(''PLC-001'',
       \<lparr>c_name = ''PLC-001'', c_type = ''PLC'', c_status = ''running'',
        c_ipAddress = Some ''192.168.1.10'', c_version = Some ''2.5.0'',
        c_configChecksum = Some ''a1b2c3d4'', c_securityZone = Some ''Level 1 - Control'',
        c_gitRepo = Some ''github.com/factory/plc-configs'',
        c_gitPath = Some ''plcs/assembly-line-1/plc-001.yaml'',
        c_lastCommit = Some ''abc123''\<rparr>),
      (''NetworkSwitch-01'',
       \<lparr>c_name = ''NetworkSwitch-01'', c_type = ''NetworkSwitch'', c_status = ''running'',
        c_ipAddress = Some ''192.168.0.5'', c_version = Some ''16.9.3'',
        c_configChecksum = Some ''e5f6g7h8'', c_securityZone = Some ''Level 2 - Supervisory'',
        c_gitRepo = Some ''github.com/factory/network-configs'',
        c_gitPath = Some ''switches/core/switch-01.yaml'',
        c_lastCommit = Some ''def456''\<rparr>),
      (''Robot-Arm-101'',
       \<lparr>c_name = ''Robot-Arm-101'', c_type = ''IndustrialRobot'', c_status = ''running'',
        c_ipAddress = Some ''192.168.2.15'', c_version = Some ''7.2.1'',
        c_configChecksum = Some ''i9j0k1l2'', c_securityZone = Some ''Level 1 - Control'',
        c_gitRepo = Some ''github.com/factory/robot-configs'',
        c_gitPath = Some ''robots/assembly/robot-arm-101.yaml'',
        c_lastCommit = Some ''ghi789''\<rparr>),
      (''SCADA-HMI-01'',
       \<lparr>c_name = ''SCADA-HMI-01'', c_type = ''HMI'', c_status = ''running'',
        c_ipAddress = Some ''192.168.3.20'', c_version = Some ''12.4.0'',
        c_configChecksum = Some ''m3n4o5p6'', c_securityZone = Some ''Level 2 - Supervisory'',
        c_gitRepo = Some ''github.com/factory/scada-configs'',
        c_gitPath = Some ''hmi/control-room/scada-hmi-01.yaml'',
        c_lastCommit = Some ''jkl012''\<rparr>)]"

text \<open>\<^verbatim>\<open>f"{n:04x}"\<close>: lower-case hexadecimal, padded with zeros to four characters.\<close>

definition hex04 :: "nat \<Rightarrow> string" where
  "hex04 n = replicate (4 - length (to_base 16 n)) CHR ''0'' @ to_base 16 n"

definition get_gitops_config_for_asset ::
  "(nat \<Rightarrow> nat) \<Rightarrow> nat \<Rightarrow> string \<Rightarrow> string \<Rightarrow> config \<times> nat" where
  "get_gitops_config_for_asset rng k asset_name asset_type =
     (case map_of gitops_configs asset_name of
        Some c \<Rightarrow> (c, k)
      | None \<Rightarrow>
          (\<lparr>c_name = asset_name, c_type = asset_type, c_status = ''running'',
            c_ipAddress = Some (''192.168.'' @ str (randint rng k 1 5) @ ''.'' @
                                str (randint rng (k + 1) 10 250)),
            c_version = Some (str (randint rng (k + 2) 1 10) @ ''.'' @
                              str (randint rng (k + 3) 0 9) @ ''.'' @
                              str (randint rng (k + 4) 0 9)),
            c_configChecksum = Some (hex04 (randint rng (k + 5) 1000 9999)),
            c_securityZone = Some ''Level 1 - Control'',
            c_gitRepo = Some (''github.com/factory/'' @ lower asset_type @ ''-configs''),
            c_gitPath = Some (lower asset_type @ ''s/'' @ lower asset_name @ ''.yaml''),
            c_lastCommit = Some (''commit'' @ str (randint rng (k + 6) 100 999))\<rparr>,
           k + 8))"

subsection \<open>The batch over all assets\<close>

record action =
  act_action :: string
  act_priority :: string
  act_automated :: bool

definition generate_drift_actions :: "drift list \<Rightarrow> action list" where
  "generate_drift_actions drifts =
     concat (map (\<lambda>d.
        if d_field d = ''status''
        then [\<lparr>act_action = ''investigate_failure'', act_priority = ''critical'', act_automated = False\<rparr>]
        else if d_field d = ''version''
        then [\<lparr>act_action = ''sync_version'', act_priority = ''high'', act_automated = True\<rparr>]
        else if d_field d = ''ipAddress''
        then [\<lparr>act_action = ''update_network'', act_priority = ''medium'', act_automated = True\<rparr>]
        else if d_field d = ''configChecksum''
        then [\<lparr>act_action = ''sync_config'', act_priority = ''high'', act_automated = True\<rparr>]
        else if d_field d = ''securityZone''
        then [\<lparr>act_action = ''update_zone'', act_priority = ''critical'', act_automated = False\<rparr>]
        else []) drifts)"

record drift_record =
  assetName :: string
  assetType :: string
  driftStatus :: string
  driftCount :: nat
  drifts :: "drift list"
  gitRepo :: "string option"
  gitPath :: "string option"
  lastCommit :: "string option"
  detectedAt :: string
  actions :: "action list"


text \<open>
  The loop's state: \<^verbatim>\<open>drift_records\<close>, \<^verbatim>\<open>total_drifted\<close>,
  \<^verbatim>\<open>critical_drift\<close>, and the generator's count. \<open>now\<close> is the reading of the
  clock.
\<close>

record drift_loop =
  drift_records :: "drift_record list"
  total_drifted :: nat
  critical_drift :: nat
  drawn :: nat

definition drift_iteration :: "(nat \<Rightarrow> nat) \<Rightarrow> string \<Rightarrow> config \<Rightarrow> drift_loop \<Rightarrow> drift_loop" where
  "drift_iteration rng now actual st =
     (case get_gitops_config_for_asset rng (drawn st) (c_name actual) (c_type actual) of
        (intended, k) \<Rightarrow>
          (case detect_drifts intended actual of
             (ds, drift_severity, crit) \<Rightarrow>
               if ds \<noteq> []
               then \<lparr>drift_records = drift_records st @
                       [\<lparr>assetName = c_name actual, assetType = c_type actual,
                         driftStatus = drift_severity, driftCount = length ds, drifts = ds,
                         gitRepo = c_gitRepo intended, gitPath = c_gitPath intended,
                         lastCommit = c_lastCommit intended, detectedAt = now,
                         actions = generate_drift_actions ds\<rparr>],
                     total_drifted = total_drifted st + 1,
                     critical_drift = critical_drift st + crit,
                     drawn = k\<rparr>
               else st\<lparr>critical_drift := critical_drift st + crit, drawn := k\<rparr>))"




section \<open>Notions used to state the properties\<close>

subsection \<open>Paths\<close>

text \<open>
  \<open>chain g kinds d v p\<close>: the relationships \<open>p\<close> can be walked one after the other
  from \<open>v\<close>, each of a listed type and between two nodes of the snapshot.
\<close>

fun chain :: "snapshot \<Rightarrow> string list \<Rightarrow> direction \<Rightarrow> nat \<Rightarrow> nat list \<Rightarrow> bool" where
  "chain g kinds d v [] = True"
| "chain g kinds d v (i # p) =
     (usable g kinds i \<and> near_node d (relationships g ! i) = v \<and>
      chain g kinds d (far_node d (relationships g ! i)) p)"

subsection \<open>Root causes\<close>

text \<open>
  The unhealthy ancestors of a node: the nodes within five hops against the arrows, over
  the four relationship types of the root-cause query, whose status is one of the six
  unhealthy ones. And the paths the query matches for a target: at most five distinct
  relationships of these types, leading from an unhealthy node to the target.
\<close>

definition unhealthy_ancestors :: "snapshot \<Rightarrow> nat \<Rightarrow> nat set" where
  "unhealthy_ancestors g t =
     Set.filter (\<lambda>w. a_status (assets g ! w) \<in> set unhealthy) (within g rca_kinds Incoming 5 t)"

definition upstream_paths :: "snapshot \<Rightarrow> nat \<Rightarrow> nat list set" where
  "upstream_paths g t =
     {p. p \<noteq> [] \<and> length p \<le> 5 \<and> chain g rca_kinds Incoming t p \<and> distinct p \<and>
         a_status (assets g ! path_end g Incoming t p) \<in> set unhealthy}"

text \<open>What a response says about the root cause: its name, the depth, the chain's names.\<close>

definition reports_root :: "rca response \<Rightarrow> string \<Rightarrow> nat \<Rightarrow> string list \<Rightarrow> bool" where
  "reports_root resp root depth names =
     (case resp of
        Error msg \<Rightarrow> False
      | Result r \<Rightarrow> rootCause r = root \<and> failureDepth r = depth \<and>
                    map n_name (failureChain r) = names)"

subsection \<open>Example snapshots\<close>

definition mk_asset :: "string \<Rightarrow> string \<Rightarrow> string \<Rightarrow> asset" where
  "mk_asset n t s =
     \<lparr>a_name = n, a_type = t, a_status = s, a_ipAddress = None, a_version = None,
      a_configChecksum = None, a_securityZone = None, a_failureReason = None\<rparr>"

text \<open>
  UPS -(POWERS)-> PLC1 -(kind)-> Robot1, all three offline.
\<close>

definition scenario :: "string \<Rightarrow> snapshot" where
  "scenario kind =
     \<lparr>assets = [mk_asset ''UPS'' ''UPS'' ''offline'', mk_asset ''PLC1'' ''PLC'' ''offline'',
                mk_asset ''Robot1'' ''Robot'' ''offline''],
      relationships = [\<lparr>r_start = 0, r_type = ''POWERS'', r_end = 1\<rparr>,
                       \<lparr>r_start = 1, r_type = kind, r_end = 2\<rparr>]\<rparr>"

text \<open>
  T is fed by A directly and through B and C, and by D through E; A and D are unhealthy.
\<close>

definition diamond :: snapshot where
  "diamond =
     \<lparr>assets = [mk_asset ''A'' ''UPS'' ''offline'', mk_asset ''B'' ''PLC'' ''online'',
                mk_asset ''C'' ''PLC'' ''online'', mk_asset ''D'' ''UPS'' ''error'',
                mk_asset ''E'' ''PLC'' ''online'', mk_asset ''T'' ''Robot'' ''offline''],
      relationships = [\<lparr>r_start = 0, r_type = ''POWERS'', r_end = 5\<rparr>,
                       \<lparr>r_start = 0, r_type = ''POWERS'', r_end = 1\<rparr>,
                       \<lparr>r_start = 1, r_type = ''POWERS'', r_end = 2\<rparr>,
                       \<lparr>r_start = 2, r_type = ''POWERS'', r_end = 5\<rparr>,
                       \<lparr>r_start = 3, r_type = ''POWERS'', r_end = 4\<rparr>,
                       \<lparr>r_start = 4, r_type = ''POWERS'', r_end = 5\<rparr>]\<rparr>"


subsection \<open>Cascade impact\<close>

text \<open>The key under which the loop files a row.\<close>

definition row_key :: "snapshot \<Rightarrow> nat \<times> nat \<Rightarrow> string" where
  "row_key g row = a_name (assets g ! fst row)"







subsection \<open>Critical paths\<close>

text \<open>
  The specification's words: the number of distinct assets downstream within depth 3, the
  score and severity computed from it, and the assets significant enough to report.
\<close>

definition dependentCount :: "snapshot \<Rightarrow> nat \<Rightarrow> nat" where
  "dependentCount g c = card (within g spof_kinds Outgoing 3 c)"

definition spec_score :: "snapshot \<Rightarrow> nat \<Rightarrow> nat" where
  "spec_score g c =
     dependentCount g c +
     (if a_type (assets g ! c) \<in> {''UPS'', ''Router'', ''NetworkSwitch''} then 10 else 0) +
     (if a_status (assets g ! c) \<in> {''warning'', ''degraded''} then 5 else 0)"

definition spec_severity :: "nat \<Rightarrow> string" where
  "spec_severity score =
     (if score > 20 then ''critical'' else if score > 10 then ''high'' else ''medium'')"

definition significant :: "snapshot \<Rightarrow> nat list" where
  "significant g = filter (\<lambda>c. dependentCount g c > 3) (nodes g)"

text \<open>
  Eleven assets in a ring, each powering the next and feeding one common sink.
\<close>

definition ring :: snapshot where
  "ring =
     \<lparr>assets = [mk_asset ''N0'' ''PLC'' ''online'',
                mk_asset ''N1'' ''PLC'' ''online'',
                mk_asset ''N2'' ''PLC'' ''online'',
                mk_asset ''N3'' ''PLC'' ''online'',
                mk_asset ''N4'' ''PLC'' ''online'',
                mk_asset ''N5'' ''PLC'' ''online'',
                mk_asset ''N6'' ''PLC'' ''online'',
                mk_asset ''N7'' ''PLC'' ''online'',
                mk_asset ''N8'' ''PLC'' ''online'',
                mk_asset ''N9'' ''PLC'' ''online'',
                mk_asset ''N10'' ''PLC'' ''online'',
                mk_asset ''Sink'' ''Sensor'' ''online''],
      relationships =
        [\<lparr>r_start = 0, r_type = ''POWERS'', r_end = 1\<rparr>,
         \<lparr>r_start = 1, r_type = ''POWERS'', r_end = 2\<rparr>,
         \<lparr>r_start = 2, r_type = ''POWERS'', r_end = 3\<rparr>,
         \<lparr>r_start = 3, r_type = ''POWERS'', r_end = 4\<rparr>,
         \<lparr>r_start = 4, r_type = ''POWERS'', r_end = 5\<rparr>,
         \<lparr>r_start = 5, r_type = ''POWERS'', r_end = 6\<rparr>,
         \<lparr>r_start = 6, r_type = ''POWERS'', r_end = 7\<rparr>,
         \<lparr>r_start = 7, r_type = ''POWERS'', r_end = 8\<rparr>,
         \<lparr>r_start = 8, r_type = ''POWERS'', r_end = 9\<rparr>,
         \<lparr>r_start = 9, r_type = ''POWERS'', r_end = 10\<rparr>,
         \<lparr>r_start = 10, r_type = ''POWERS'', r_end = 0\<rparr>,
         \<lparr>r_start = 0, r_type = ''FEEDS_DATA'', r_end = 11\<rparr>,
         \<lparr>r_start = 1, r_type = ''FEEDS_DATA'', r_end = 11\<rparr>,
         \<lparr>r_start = 2, r_type = ''FEEDS_DATA'', r_end = 11\<rparr>,
         \<lparr>r_start = 3, r_type = ''FEEDS_DATA'', r_end = 11\<rparr>,
         \<lparr>r_start = 4, r_type = ''FEEDS_DATA'', r_end = 11\<rparr>,
         \<lparr>r_start = 5, r_type = ''FEEDS_DATA'', r_end = 11\<rparr>,
         \<lparr>r_start = 6, r_type = ''FEEDS_DATA'', r_end = 11\<rparr>,
         \<lparr>r_start = 7, r_type = ''FEEDS_DATA'', r_end = 11\<rparr>,
         \<lparr>r_start = 8, r_type = ''FEEDS_DATA'', r_end = 11\<rparr>,
         \<lparr>r_start = 9, r_type = ''FEEDS_DATA'', r_end = 11\<rparr>,
         \<lparr>r_start = 10, r_type = ''FEEDS_DATA'', r_end = 11\<rparr>]\<rparr>"

subsection \<open>Determinism\<close>





subsection \<open>Drift\<close>

text \<open>The five compared fields of a configuration, the status up to case.\<close>

definition compared :: "config \<Rightarrow> string \<times> string option \<times> string option \<times> string option \<times> string option" where
  "compared c =
     (lower (c_status c), c_ipAddress c, c_version c, c_configChecksum c, c_securityZone c)"

text \<open>The order critical > high > medium > none, and the greatest severity of a list.\<close>

definition rank :: "string \<Rightarrow> nat" where
  "rank s = (if s = ''critical'' then 3 else if s = ''high'' then 2
             else if s = ''medium'' then 1 else 0)"





definition plc_intended :: config where
  "plc_intended =
     \<lparr>c_name = ''PLC-001'', c_type = ''PLC'', c_status = ''running'',
      c_ipAddress = Some ''192.168.1.10'', c_version = Some ''2.5.0'',
      c_configChecksum = Some ''a1b2c3d4'', c_securityZone = Some ''Level 1 - Control'',
      c_gitRepo = Some ''github.com/factory/plc-configs'',
      c_gitPath = Some ''plcs/assembly-line-1/plc-001.yaml'',
      c_lastCommit = Some ''abc123''\<rparr>"

definition plc_observed :: "string \<Rightarrow> config" where
  "plc_observed st =
     \<lparr>c_name = ''PLC-001'', c_type = ''PLC'', c_status = st,
      c_ipAddress = Some ''192.168.1.10'', c_version = Some ''2.5.0'',
      c_configChecksum = Some ''a1b2c3d4'', c_securityZone = Some ''Level 1 - Control'',
      c_gitRepo = None, c_gitPath = None, c_lastCommit = None\<rparr>"

definition empty_loop :: drift_loop where
  "empty_loop = \<lparr>drift_records = [], total_drifted = 0, critical_drift = 0, drawn = 0\<rparr>"

section \<open>Paths, hops and distances\<close>

lemma path_end_Nil [simp]: "path_end g d v [] = v"
  by (simp add: path_end_def path_nodes_def)

lemma path_end_Cons [simp]:
  "path_end g d v (i # p) = path_end g d (far_node d (relationships g ! i)) p"
  by (simp add: path_end_def path_nodes_def)

lemma path_end_append [simp]:
  "path_end g d v (p @ q) = path_end g d (path_end g d v p) q"
  by (induction p arbitrary: v) simp_all

lemma chain_append [simp]:
  "chain g kinds d v (p @ q) \<longleftrightarrow> chain g kinds d v p \<and> chain g kinds d (path_end g d v p) q"
  by (induction p arbitrary: v) auto

lemma expand_iff:
  "p \<in> set (expand g kinds d n v used) \<longleftrightarrow>
     (\<exists>q. p = used @ q \<and> q \<noteq> [] \<and> length q \<le> n \<and> chain g kinds d v q \<and>
          distinct q \<and> set q \<inter> set used = {})"
proof (induction n arbitrary: v used)
  case 0
  then show ?case by auto
next
  case (Suc n)
  show ?case
  proof
    assume "p \<in> set (expand g kinds d (Suc n) v used)"
    then obtain i where i: "i < length (relationships g)" "usable g kinds i"
        "near_node d (relationships g ! i) = v" "i \<notin> set used"
      and p: "p = used @ [i] \<or> p \<in> set (expand g kinds d n (far_node d (relationships g ! i)) (used @ [i]))"
      by (auto split: if_splits)
    from p show "\<exists>q. p = used @ q \<and> q \<noteq> [] \<and> length q \<le> Suc n \<and> chain g kinds d v q \<and>
          distinct q \<and> set q \<inter> set used = {}"
    proof
      assume "p = used @ [i]"
      with i show ?thesis by (intro exI [of _ "[i]"]) simp
    next
      assume "p \<in> set (expand g kinds d n (far_node d (relationships g ! i)) (used @ [i]))"
      then obtain q where q: "p = (used @ [i]) @ q" "q \<noteq> []" "length q \<le> n"
          "chain g kinds d (far_node d (relationships g ! i)) q" "distinct q"
          "set q \<inter> set (used @ [i]) = {}"
        using Suc.IH by blast
      with i show ?thesis by (intro exI [of _ "i # q"]) auto
    qed
  next
    assume "\<exists>q. p = used @ q \<and> q \<noteq> [] \<and> length q \<le> Suc n \<and> chain g kinds d v q \<and>
          distinct q \<and> set q \<inter> set used = {}"
    then obtain q where q: "p = used @ q" "q \<noteq> []" "length q \<le> Suc n" "chain g kinds d v q"
        "distinct q" "set q \<inter> set used = {}"
      by blast
    then obtain i q' where iq: "q = i # q'" by (cases q) auto
    with q have i: "usable g kinds i" "near_node d (relationships g ! i) = v" "i \<notin> set used"
        "i < length (relationships g)"
      by (auto simp: usable_def)
    have "p = used @ [i] \<or> p \<in> set (expand g kinds d n (far_node d (relationships g ! i)) (used @ [i]))"
    proof (cases "q' = []")
      case True
      with q iq show ?thesis by simp
    next
      case False
      with q iq have "\<exists>r. p = (used @ [i]) @ r \<and> r \<noteq> [] \<and> length r \<le> n \<and>
          chain g kinds d (far_node d (relationships g ! i)) r \<and> distinct r \<and>
          set r \<inter> set (used @ [i]) = {}"
        by (intro exI [of _ q']) auto
      then show ?thesis using Suc.IH by blast
    qed
    with i show "p \<in> set (expand g kinds d (Suc n) v used)"
      by (auto intro!: bexI [of _ i])
  qed
qed

lemma var_length_iff:
  "p \<in> set (var_length g kinds d n v) \<longleftrightarrow>
     p \<noteq> [] \<and> length p \<le> n \<and> chain g kinds d v p \<and> distinct p"
  by (auto simp: var_length_def expand_iff)

lemma neighbours_iff:
  "w \<in> neighbours g kinds d v \<longleftrightarrow>
     (\<exists>i. usable g kinds i \<and> near_node d (relationships g ! i) = v \<and>
          far_node d (relationships g ! i) = w)"
  by (auto simp: neighbours_def usable_def)

lemma hops_iff:
  "w \<in> hops g kinds d k v \<longleftrightarrow>
     (\<exists>p. length p = k \<and> chain g kinds d v p \<and> path_end g d v p = w)"
proof (induction k arbitrary: w)
  case 0
  then show ?case by auto
next
  case (Suc k)
  show ?case
  proof
    assume "w \<in> hops g kinds d (Suc k) v"
    then obtain u where u: "u \<in> hops g kinds d k v" "w \<in> neighbours g kinds d u" by auto
    then obtain p i where "length p = k" "chain g kinds d v p" "path_end g d v p = u"
        "usable g kinds i" "near_node d (relationships g ! i) = u"
        "far_node d (relationships g ! i) = w"
      using Suc.IH neighbours_iff by blast
    then show "\<exists>p. length p = Suc k \<and> chain g kinds d v p \<and> path_end g d v p = w"
      by (intro exI [of _ "p @ [i]"]) simp
  next
    assume "\<exists>p. length p = Suc k \<and> chain g kinds d v p \<and> path_end g d v p = w"
    then obtain p where p: "length p = Suc k" "chain g kinds d v p" "path_end g d v p = w"
      by blast
    then obtain q i where qi: "p = q @ [i]" "length q = k"
      by (metis length_Suc_conv_rev)
    with p have "path_end g d v q \<in> hops g kinds d k v"
      "w \<in> neighbours g kinds d (path_end g d v q)"
      using Suc.IH neighbours_iff by auto
    then show "w \<in> hops g kinds d (Suc k) v" by auto
  qed
qed

lemma chain_shortcut:
  assumes "chain g kinds d v p" "\<not> distinct p"
  shows "\<exists>q. chain g kinds d v q \<and> path_end g d v q = path_end g d v p \<and>
             length q < length p \<and> q \<noteq> []"
proof -
  from assms(2) obtain a b c i where p: "p = a @ [i] @ b @ [i] @ c"
    using not_distinct_decomp by blast
  with assms(1) have "chain g kinds d v (a @ [i] @ c)"
    "path_end g d v (a @ [i] @ c) = path_end g d v p"
    by auto
  with p show ?thesis by (intro exI [of _ "a @ [i] @ c"]) simp
qed

lemma chain_trail:
  "chain g kinds d v p \<Longrightarrow> p \<noteq> [] \<Longrightarrow>
     \<exists>q. chain g kinds d v q \<and> distinct q \<and> q \<noteq> [] \<and> length q \<le> length p \<and>
         path_end g d v q = path_end g d v p"
proof (induction "length p" arbitrary: p rule: less_induct)
  case less
  show ?case
  proof (cases "distinct p")
    case True
    with less.prems show ?thesis by blast
  next
    case False
    then obtain q where q: "chain g kinds d v q" "path_end g d v q = path_end g d v p"
        "length q < length p" "q \<noteq> []"
      using chain_shortcut less.prems(1) by blast
    from less.hyps [OF q(3) q(1) q(4)] obtain r where
      "chain g kinds d v r" "distinct r" "r \<noteq> []" "length r \<le> length q"
      "path_end g d v r = path_end g d v q"
      by blast
    with q show ?thesis by (intro exI [of _ r]) simp
  qed
qed

text \<open>A node is k hops away for some k in 1..n iff a matched path of at most k relationships ends there.\<close>

lemma hops_var_length:
  assumes "0 < k" "w \<in> hops g kinds d k v"
  shows "\<exists>p \<in> set (var_length g kinds d k v). path_end g d v p = w"
proof -
  from assms obtain p where "length p = k" "chain g kinds d v p" "path_end g d v p = w"
    using hops_iff by blast
  with assms(1) obtain q where "chain g kinds d v q" "distinct q" "q \<noteq> []" "length q \<le> k"
      "path_end g d v q = w"
    using chain_trail [of g kinds d v p] by auto
  then show ?thesis by (auto simp: var_length_iff)
qed

lemma var_length_hops:
  "p \<in> set (var_length g kinds d n v) \<Longrightarrow> path_end g d v p \<in> hops g kinds d (length p) v"
  by (auto simp: var_length_iff hops_iff)

lemma var_length_mono:
  "k \<le> n \<Longrightarrow> set (var_length g kinds d k v) \<subseteq> set (var_length g kinds d n v)"
  by (auto simp: var_length_iff)

lemma within_iff:
  "w \<in> within g kinds d n v \<longleftrightarrow> (\<exists>p \<in> set (var_length g kinds d n v). path_end g d v p = w)"
proof
  assume "w \<in> within g kinds d n v"
  then obtain k where k: "1 \<le> k" "k \<le> n" "w \<in> hops g kinds d k v"
    by (auto simp: within_def)
  then obtain p where "p \<in> set (var_length g kinds d k v)" "path_end g d v p = w"
    using hops_var_length [of k w g kinds d v] by auto
  with k var_length_mono show "\<exists>p \<in> set (var_length g kinds d n v). path_end g d v p = w"
    by blast
next
  assume "\<exists>p \<in> set (var_length g kinds d n v). path_end g d v p = w"
  then obtain p where p: "p \<in> set (var_length g kinds d n v)" "path_end g d v p = w" by blast
  then have "w \<in> hops g kinds d (length p) v" "1 \<le> length p" "length p \<le> n"
    using var_length_hops by (auto simp: var_length_iff Suc_le_eq)
  then show "w \<in> within g kinds d n v" by (auto simp: within_def)
qed

lemma within_set:
  "within g kinds d n v = path_end g d v ` set (var_length g kinds d n v)"
  by (auto simp: within_iff)

lemma hop_distance_Some:
  "hop_distance g kinds d n v w = Some k \<longleftrightarrow>
     1 \<le> k \<and> k \<le> n \<and> w \<in> hops g kinds d k v \<and>
     (\<forall>j. 1 \<le> j \<and> j < k \<longrightarrow> w \<notin> hops g kinds d j v)"
proof
  assume "hop_distance g kinds d n v w = Some k"
  then obtain i where i: "i < n" "w \<in> hops g kinds d (Suc i) v" "k = Suc i"
      "\<forall>j<i. w \<notin> hops g kinds d (Suc j) v"
    by (auto simp: hop_distance_def find_Some_iff nth_upt simp del: upt_Suc hops.simps)
  have "w \<notin> hops g kinds d j v" if "1 \<le> j" "j < k" for j
    using i(4) [rule_format, of "j - 1"] that i(3) by simp
  with i show "1 \<le> k \<and> k \<le> n \<and> w \<in> hops g kinds d k v \<and>
     (\<forall>j. 1 \<le> j \<and> j < k \<longrightarrow> w \<notin> hops g kinds d j v)"
    by simp
next
  assume a: "1 \<le> k \<and> k \<le> n \<and> w \<in> hops g kinds d k v \<and>
     (\<forall>j. 1 \<le> j \<and> j < k \<longrightarrow> w \<notin> hops g kinds d j v)"
  then obtain i where i: "k = Suc i" by (cases k) auto
  with a show "hop_distance g kinds d n v w = Some k"
    unfolding hop_distance_def find_Some_iff
    by (intro exI [of _ i]) (auto simp: nth_upt simp del: upt_Suc hops.simps)
qed

lemma hop_distance_None:
  "hop_distance g kinds d n v w = None \<longleftrightarrow> w \<notin> within g kinds d n v"
  by (auto simp: hop_distance_def find_None_iff within_def simp del: upt_Suc hops.simps)

lemma hop_distance_le_path:
  assumes "p \<in> set (var_length g kinds d n v)"
  shows "\<exists>k. hop_distance g kinds d n v (path_end g d v p) = Some k \<and> k \<le> length p"
proof -
  from assms have "path_end g d v p \<in> within g kinds d n v" by (auto simp: within_iff)
  then obtain k where k: "hop_distance g kinds d n v (path_end g d v p) = Some k"
    using hop_distance_None by (cases "hop_distance g kinds d n v (path_end g d v p)") auto
  have "path_end g d v p \<in> hops g kinds d (length p) v" "1 \<le> length p"
    using assms var_length_hops by (auto simp: var_length_iff Suc_le_eq)
  with k have "k \<le> length p"
    unfolding hop_distance_Some by (meson not_le_imp_less)
  with k show ?thesis by blast
qed

lemma hop_distance_path:
  assumes "hop_distance g kinds d n v w = Some k"
  shows "\<exists>p \<in> set (var_length g kinds d n v). path_end g d v p = w \<and> length p = k"
proof -
  from assms have k: "1 \<le> k" "k \<le> n" "w \<in> hops g kinds d k v"
    by (auto simp: hop_distance_Some)
  then obtain p where p: "p \<in> set (var_length g kinds d k v)" "path_end g d v p = w"
    using hops_var_length [of k w g kinds d v] by auto
  with k have pn: "p \<in> set (var_length g kinds d n v)" using var_length_mono by blast
  from hop_distance_le_path [OF pn] p assms have "k \<le> length p" by simp
  moreover from p have "length p \<le> k" by (simp add: var_length_iff)
  ultimately show ?thesis using pn p by auto
qed

section \<open>Properties of the root-cause analyser\<close>

lemma match_name_absent:
  "asset_name \<notin> a_name ` set (assets g) \<Longrightarrow> match_name g asset_name = []"
  by (auto simp: match_name_def nodes_def filter_empty_conv)

lemma match_name_present:
  "asset_name \<in> a_name ` set (assets g) \<Longrightarrow> match_name g asset_name \<noteq> []"
  by (force simp: match_name_def nodes_def filter_empty_conv in_set_conv_nth)

text \<open>
  C7. For a name that no asset of the snapshot bears, both analysers answer with the error
  ``Asset not found''.
\<close>

theorem asset_not_found:
  "asset_name \<notin> a_name ` set (assets g) \<Longrightarrow>
     find_root_cause g asset_name = Error ''Asset not found'' \<and>
     analyze_cascade_impact g asset_name = Error ''Asset not found''"
  by (simp add: match_name_absent find_root_cause_def rca_rows_def deepest_def single_def
      isolated_failure_def analyze_cascade_impact_def)

theorem asset_not_found_witness:
  "''Robot9'' \<notin> a_name ` set (assets (scenario ''CONTROLS'')) \<and>
   find_root_cause (scenario ''CONTROLS'') ''Robot9'' = Error ''Asset not found'' \<and>
   analyze_cascade_impact (scenario ''CONTROLS'') ''Robot9'' = Error ''Asset not found''"
proof -
  have h: "''Robot9'' \<notin> a_name ` set (assets (scenario ''CONTROLS''))"
    by (simp add: scenario_def mk_asset_def)
  from asset_not_found [OF h] h show ?thesis by simp
qed

lemma sort_key_first:
  assumes "xs \<noteq> []"
  shows "\<exists>x \<in> set xs. take 1 (sort_key f xs) = [x] \<and> (\<forall>y \<in> set xs. f x \<le> f y)"
proof -
  from assms have "sort_key f xs \<noteq> []" by (metis length_0_conv length_sort)
  then obtain x zs where e: "sort_key f xs = x # zs" by (cases "sort_key f xs") auto
  have "sorted (map f (sort_key f xs))" by simp
  with e have "\<forall>y \<in> set (x # zs). f x \<le> f y" by auto
  moreover have "set (x # zs) = set xs" using e by (metis set_sort)
  ultimately show ?thesis using e by auto
qed

lemma chain_end_valid:
  "chain g kinds d v p \<Longrightarrow> p \<noteq> [] \<Longrightarrow> path_end g d v p < length (assets g)"
proof (induction p arbitrary: v)
  case Nil
  then show ?case by simp
next
  case (Cons i p)
  show ?case
  proof (cases "p = []")
    case True
    with Cons.prems show ?thesis by (cases d) (auto simp: usable_def)
  next
    case False
    with Cons show ?thesis by simp
  qed
qed

lemma upstream_paths_code:
  "set (filter (\<lambda>p. a_status (assets g ! path_end g Incoming t p) \<in> set unhealthy)
         (var_length g rca_kinds Incoming 5 t)) = upstream_paths g t"
  by (auto simp: upstream_paths_def var_length_iff)


lemma rca_rows_single:
  "match_name g asset_name = [t] \<Longrightarrow>
     rca_rows g asset_name =
       (let paths = filter (\<lambda>p. a_status (assets g ! path_end g Incoming t p) \<in> set unhealthy)
                      (var_length g rca_kinds Incoming 5 t)
        in if paths = [] then [(t, None)] else map (\<lambda>p. (t, Some p)) paths)"
  by (simp add: rca_rows_def)




text \<open>
  C1, as the claim states it, fails: the unhealthy ancestors of T are A, one hop away, and
  D, two hops away, so the ancestor at the greatest depth is D at depth 2; the answer is A
  with depth 3, the length of the longest path from A to T.
\<close>

theorem deepest_counterexample:
  "reports_root (find_root_cause diamond ''T'') ''A'' 3 [''A'', ''B'', ''C'', ''T''] \<and>
   unhealthy_ancestors diamond 5 = {0, 3} \<and>
   hop_distance diamond rca_kinds Incoming 5 5 0 = Some 1 \<and>
   hop_distance diamond rca_kinds Incoming 5 5 3 = Some 2"
  by code_simp



lemma desc_le: "desc (Some a) \<le> desc (Some b) \<longleftrightarrow> b \<le> a"
  by (simp add: desc_def)

lemma ancestor_depth_le:
  assumes "w \<in> unhealthy_ancestors g t"
    and "\<forall>q \<in> upstream_paths g t. length q \<le> n"
  shows "\<exists>k. hop_distance g rca_kinds Incoming 5 t w = Some k \<and> k \<le> n"
proof -
  from assms(1) have w: "w \<in> within g rca_kinds Incoming 5 t"
      "a_status (assets g ! w) \<in> set unhealthy"
    by (simp_all add: unhealthy_ancestors_def)
  then obtain k where k: "hop_distance g rca_kinds Incoming 5 t w = Some k"
    using hop_distance_None [of g rca_kinds Incoming 5 t w]
    by (cases "hop_distance g rca_kinds Incoming 5 t w") auto
  from hop_distance_path [OF k] obtain p where
    p: "p \<in> set (var_length g rca_kinds Incoming 5 t)" "path_end g Incoming t p = w"
      "length p = k"
    by blast
  with w(2) have "p \<in> upstream_paths g t"
    by (simp add: upstream_paths_def var_length_iff)
  with assms(2) p(3) have "k \<le> n" by auto
  with k show ?thesis by simp
qed

text \<open>
  C1, amended. When exactly one asset bears the name, names are not empty and some path
  of at most five distinct relationships (POWERS, CONNECTS_TO, FEEDS_DATA, DEPENDS_ON)
  leads from an unhealthy asset to it, the answer is built from such a path of the
  greatest length: the depth is that length, the root cause is the asset the path starts
  from, and the chain lists the path's nodes from the root to the target. The depth is
  thus not below the least hop count of any unhealthy ancestor.
\<close>

theorem root_cause_longest_path:
  assumes "match_name g asset_name = [t]"
    and "upstream_paths g t \<noteq> {}"
    and "\<forall>a \<in> set (assets g). a_name a \<noteq> []"
  shows "\<exists>r p. find_root_cause g asset_name = Result r \<and> p \<in> upstream_paths g t \<and>
               (\<forall>q \<in> upstream_paths g t. length q \<le> length p) \<and>
               failureDepth r = length p \<and>
               rootCause r = a_name (assets g ! path_end g Incoming t p) \<and>
               rootCauseStatus r \<in> set unhealthy \<and>
               map n_name (failureChain r) =
                 map (\<lambda>v. a_name (assets g ! v)) (rev (t # path_nodes g Incoming p)) \<and>
               (\<forall>w \<in> unhealthy_ancestors g t.
                  \<exists>k. hop_distance g rca_kinds Incoming 5 t w = Some k \<and> k \<le> failureDepth r)"
proof -
  let ?Q = "filter (\<lambda>p. a_status (assets g ! path_end g Incoming t p) \<in> set unhealthy)
              (var_length g rca_kinds Incoming 5 t)"
  have Q: "?Q \<noteq> []"
  proof
    assume "?Q = []"
    then have "set ?Q = {}" by (simp only: set_simps)
    with assms(2) show False by (simp only: upstream_paths_code)
  qed
  with assms(1) have rows: "rca_rows g asset_name = map (\<lambda>p. (t, Some p)) ?Q"
    by (simp add: rca_rows_single)
  with Q have "rca_rows g asset_name \<noteq> []" by simp
  then obtain x where x: "x \<in> set (rca_rows g asset_name)"
      "deepest (rca_rows g asset_name) = [x]"
      "\<forall>y \<in> set (rca_rows g asset_name).
         desc (map_option length (snd x)) \<le> desc (map_option length (snd y))"
    unfolding deepest_def
    using sort_key_first [of "rca_rows g asset_name" "\<lambda>row. desc (map_option length (snd row))"]
    by blast
  from x(1) rows obtain p where p: "x = (t, Some p)" "p \<in> set ?Q" by auto
  from p(2) have pu: "p \<in> upstream_paths g t" by (simp only: upstream_paths_code)
  have longest: "length q \<le> length p" if "q \<in> upstream_paths g t" for q
  proof -
    from that have "(t, Some q) \<in> set (rca_rows g asset_name)"
      unfolding rows upstream_paths_code [symmetric] by auto
    with x(3) p(1) show ?thesis by (auto simp: desc_le)
  qed
  from pu have "chain g rca_kinds Incoming t p" "p \<noteq> []"
    by (simp_all add: upstream_paths_def)
  then have "path_end g Incoming t p < length (assets g)" by (rule chain_end_valid)
  with assms(3) have "a_name (assets g ! path_end g Incoming t p) \<noteq> []" by simp
  then have "rootCause (rca_of_path g t p) \<noteq> []"
    by (simp add: rca_of_path_def Let_def)
  with x(2) p(1) have "find_root_cause g asset_name = Result (rca_of_path g t p)"
    by (simp add: find_root_cause_def single_def)
  moreover from pu have "a_status (assets g ! path_end g Incoming t p) \<in> set unhealthy"
    by (simp add: upstream_paths_def)
  moreover have "\<forall>w \<in> unhealthy_ancestors g t.
      \<exists>k. hop_distance g rca_kinds Incoming 5 t w = Some k \<and>
          k \<le> failureDepth (rca_of_path g t p)"
    using ancestor_depth_le [of _ g t "length p"] longest
    by (simp add: rca_of_path_def Let_def)
  ultimately show ?thesis using pu longest
    by (intro exI [of _ "rca_of_path g t p"] exI [of _ p])
       (simp add: rca_of_path_def Let_def chain_node_of_def comp_def)
qed

theorem root_cause_longest_path_witness:
  "match_name diamond ''T'' = [5] \<and> [3, 2, 1] \<in> upstream_paths diamond 5 \<and>
   [] \<notin> set (map a_name (assets diamond)) \<and>
   (\<exists>r p. find_root_cause diamond ''T'' = Result r \<and> p \<in> upstream_paths diamond 5 \<and>
          (\<forall>q \<in> upstream_paths diamond 5. length q \<le> length p) \<and>
          failureDepth r = length p \<and>
          rootCause r = a_name (assets diamond ! path_end diamond Incoming 5 p))"
proof -
  have m: "match_name diamond ''T'' = [5]" by code_simp
  have u: "[3, 2, 1] \<in> upstream_paths diamond 5"
    by (simp add: upstream_paths_def diamond_def usable_def rca_kinds_def mk_asset_def
        unhealthy_def)
  then have ne: "upstream_paths diamond 5 \<noteq> {}" by blast
  have n': "[] \<notin> set (map a_name (assets diamond))"
    by (simp add: diamond_def mk_asset_def)
  then have n: "\<forall>a \<in> set (assets diamond). a_name a \<noteq> []"
    by (metis image_eqI list.set_map)
  from root_cause_longest_path [OF m ne n] m u n' show ?thesis by blast
qed

section \<open>Properties of the cascade-impact analyser\<close>



lemma fill_first:
  "(n, e) \<in> set (fill_assets_map g rows m) \<Longrightarrow>
     (n, e) \<in> set m \<or>
     (n \<notin> fst ` set m \<and>
      (\<exists>pre row post. rows = pre @ row # post \<and> row_key g row = n \<and> e = affected_of g row \<and>
        n \<notin> row_key g ` set pre))"
proof (induction rows arbitrary: m)
  case Nil
  then show ?case by simp
next
  case (Cons r rows)
  let ?m' = "if row_key g r \<in> fst ` set m then m else m @ [(row_key g r, affected_of g r)]"
  have key_in: "row_key g r \<in> fst ` set ?m'" by (auto simp: image_iff)
  have sub: "set m \<subseteq> set ?m'" by auto
  from Cons.prems have "(n, e) \<in> set (fill_assets_map g rows ?m')"
    by (simp only: fill_assets_map.simps Let_def row_key_def)
  from Cons.IH [OF this] show ?case
  proof
    assume "(n, e) \<in> set ?m'"
    then consider "(n, e) \<in> set m"
      | "row_key g r \<notin> fst ` set m" "n = row_key g r" "e = affected_of g r"
      by (auto split: if_splits)
    then show ?thesis
    proof cases
      case 1
      then show ?thesis by simp
    next
      case 2
      then have "n \<notin> fst ` set m \<and> r # rows = [] @ r # rows \<and> row_key g r = n \<and>
          e = affected_of g r \<and> n \<notin> row_key g ` set []"
        by simp
      then show ?thesis by blast
    qed
  next
    assume "n \<notin> fst ` set ?m' \<and> (\<exists>pre row post. rows = pre @ row # post \<and> row_key g row = n \<and>
        e = affected_of g row \<and> n \<notin> row_key g ` set pre)"
    then obtain pre row post where a: "n \<notin> fst ` set ?m'" "rows = pre @ row # post"
        "row_key g row = n" "e = affected_of g row" "n \<notin> row_key g ` set pre"
      by blast
    from a(1) key_in have ne: "row_key g r \<noteq> n" by metis
    from a(1) sub have nm: "n \<notin> fst ` set m" by blast
    from a ne have "r # rows = (r # pre) @ row # post \<and> row_key g row = n \<and>
          e = affected_of g row \<and> n \<notin> row_key g ` set (r # pre)"
      by auto
    with nm show ?thesis by blast
  qed
qed

lemma fill_entry:
  assumes "(n, e) \<in> set (fill_assets_map g rows [])"
  shows "\<exists>pre row post. rows = pre @ row # post \<and> row_key g row = n \<and> e = affected_of g row \<and>
           n \<notin> row_key g ` set pre"
  using fill_first [OF assms] by simp

lemma affected_of_simps [simp]:
  "f_name (affected_of g row) = row_key g row"
  "f_distance (affected_of g row) = snd row"
  "f_status (affected_of g row) = a_status (assets g ! fst row)"
  "f_isAffected (affected_of g row) =
     (a_status (assets g ! fst row) \<in> set [''offline'', ''error'', ''degraded'', ''warning''])"
  by (simp_all add: affected_of_def row_key_def Let_def)

lemma paths_result_set:
  "set (paths_result g asset_name) =
     (\<Union>s \<in> set (match_name g asset_name).
        (\<lambda>p. (path_end g Outgoing s p, length p)) ` set (var_length g cascade_kinds Outgoing 5 s))"
  by (auto simp: paths_result_def)


lemma paths_result_le5:
  "row \<in> set (paths_result g asset_name) \<Longrightarrow> 1 \<le> snd row \<and> snd row \<le> 5"
  by (auto simp: paths_result_set var_length_iff Suc_le_eq)

lemma cascade_result:
  assumes "match_name g asset_name = s # ss"
  shows "\<exists>r. analyze_cascade_impact g asset_name = Result r \<and>
     allAffectedAssets r = map snd (fill_assets_map g (paths_result g asset_name) []) \<and>
     totalDownstream r = length (allAffectedAssets r) \<and>
     currentlyAffected r = length (filter f_isAffected (allAffectedAssets r)) \<and>
     impactRadius r = (if allAffectedAssets r = [] then 0
                       else Max (set (map f_distance (allAffectedAssets r))))"
  unfolding analyze_cascade_impact_def single_def assms Let_def
  by (simp add: image_image split del: if_split cong: if_cong)


lemma fill_entry_row:
  assumes "e \<in> set (map snd (fill_assets_map g rows []))"
  shows "\<exists>row \<in> set rows. e = affected_of g row"
proof -
  from assms obtain n where "(n, e) \<in> set (fill_assets_map g rows [])" by auto
  from fill_entry [OF this] obtain pre row post where
    "rows = pre @ row # post" "e = affected_of g row"
    by blast
  then show ?thesis by auto
qed

lemma no_paths_result:
  assumes "\<forall>s \<in> set (match_name g asset_name). within g cascade_kinds Outgoing 5 s = {}"
  shows "paths_result g asset_name = []"
proof -
  have "var_length g cascade_kinds Outgoing 5 s = []" if "s \<in> set (match_name g asset_name)" for s
  proof -
    from that assms have "path_end g Outgoing s ` set (var_length g cascade_kinds Outgoing 5 s) = {}"
      by (simp only: within_set [symmetric])
    then show ?thesis by (simp only: image_is_empty set_empty)
  qed
  then have "set (paths_result g asset_name) = {}"
    by (simp add: paths_result_set)
  then show ?thesis by (simp only: set_empty)
qed

text \<open>
  C10. For a name borne by an asset the analyser answers with a result, in which
  0 \<le> currentlyAffected \<le> totalDownstream and 0 \<le> impactRadius \<le> 5; when no asset of
  that name has anything downstream within five hops, totalDownstream and impactRadius
  are 0.
\<close>

theorem cascade_bounds:
  assumes "asset_name \<in> a_name ` set (assets g)"
  shows "\<exists>r. analyze_cascade_impact g asset_name = Result r \<and>
             0 \<le> currentlyAffected r \<and> currentlyAffected r \<le> totalDownstream r \<and>
             0 \<le> impactRadius r \<and> impactRadius r \<le> 5 \<and>
             ((\<forall>s \<in> set (match_name g asset_name). within g cascade_kinds Outgoing 5 s = {})
                \<longrightarrow> totalDownstream r = 0 \<and> impactRadius r = 0)"
proof -
  from assms obtain s ss where m: "match_name g asset_name = s # ss"
    using match_name_present by (cases "match_name g asset_name") auto
  from cascade_result [OF m] obtain r where r: "analyze_cascade_impact g asset_name = Result r"
      and all: "allAffectedAssets r = map snd (fill_assets_map g (paths_result g asset_name) [])"
      and total: "totalDownstream r = length (allAffectedAssets r)"
      and current: "currentlyAffected r = length (filter f_isAffected (allAffectedAssets r))"
      and radius: "impactRadius r = (if allAffectedAssets r = [] then 0
                         else Max (set (map f_distance (allAffectedAssets r))))"
    by blast
  have dist: "f_distance e \<le> 5" if "e \<in> set (allAffectedAssets r)" for e
  proof -
    from that obtain row where "row \<in> set (paths_result g asset_name)" "e = affected_of g row"
      unfolding all using fill_entry_row by blast
    then show ?thesis using paths_result_le5 [of row g asset_name] by simp
  qed
  have r5: "impactRadius r \<le> 5"
  proof (cases "allAffectedAssets r = []")
    case True
    with radius show ?thesis by simp
  next
    case False
    then have "Max (set (map f_distance (allAffectedAssets r))) \<le> 5"
      using dist by (subst Max_le_iff) auto
    with radius False show ?thesis by simp
  qed
  have none: "totalDownstream r = 0 \<and> impactRadius r = 0"
    if "\<forall>s \<in> set (match_name g asset_name). within g cascade_kinds Outgoing 5 s = {}"
  proof -
    from that have "paths_result g asset_name = []" by (rule no_paths_result)
    with all have "allAffectedAssets r = []" by simp
    with total radius show ?thesis by simp
  qed
  have "currentlyAffected r \<le> totalDownstream r"
    unfolding total current by (rule length_filter_le)
  with r r5 none show ?thesis by blast
qed

theorem cascade_bounds_witness:
  "''Robot1'' \<in> a_name ` set (assets (scenario ''CONTROLS'')) \<and>
   match_name (scenario ''CONTROLS'') ''Robot1'' = [2] \<and>
   within (scenario ''CONTROLS'') cascade_kinds Outgoing 5 2 = {} \<and>
   (\<exists>r. analyze_cascade_impact (scenario ''CONTROLS'') ''Robot1'' = Result r \<and>
        currentlyAffected r \<le> totalDownstream r \<and> impactRadius r \<le> 5 \<and>
        totalDownstream r = 0 \<and> impactRadius r = 0)"
proof -
  have present: "''Robot1'' \<in> a_name ` set (assets (scenario ''CONTROLS''))"
    by (simp add: scenario_def mk_asset_def)
  have m: "match_name (scenario ''CONTROLS'') ''Robot1'' = [2]"
    by code_simp
  have w: "within (scenario ''CONTROLS'') cascade_kinds Outgoing 5 2 = {}"
    by code_simp
  from m w have leaf: "\<forall>s \<in> set (match_name (scenario ''CONTROLS'') ''Robot1'').
      within (scenario ''CONTROLS'') cascade_kinds Outgoing 5 s = {}"
    by simp
  from cascade_bounds [OF present] present m w leaf show ?thesis by blast
qed













section \<open>Properties of the critical-path analyser\<close>

lemma dependents_count: "length (dependents g c) = dependentCount g c"
  by (simp add: dependents_def dependentCount_def length_remdups_card_conv within_set)

lemma score_spec: "criticalityScore g c = spec_score g c"
  by (simp add: criticalityScore_def spec_score_def dependents_count)

lemma significant_code:
  "filter (\<lambda>c. length (dependents g c) > 3) (nodes g) = significant g"
  by (simp add: significant_def dependents_count)

lemma criticalPath_fields:
  "s_asset (criticalPath g c) = a_name (assets g ! c) \<and>
   s_dependentCount (criticalPath g c) = dependentCount g c \<and>
   s_criticalityScore (criticalPath g c) = spec_score g c \<and>
   s_severity (criticalPath g c) = spec_severity (spec_score g c)"
  by (simp add: criticalPath_def score_spec dependents_count spec_severity_def)

lemma analyze_critical_paths_alt:
  "analyze_critical_paths g =
     map (criticalPath g) (take 10 (sort_key (\<lambda>c. - int (spec_score g c)) (significant g)))"
  by (simp add: analyze_critical_paths_def significant_code score_spec)

lemma length_analyze_critical_paths:
  "length (analyze_critical_paths g) = min 10 (length (significant g))"
  by (simp add: analyze_critical_paths_alt min.commute)

lemma top_of_sorted:
  fixes f :: "'a \<Rightarrow> int"
  assumes "sorted (map f ys)" "a \<in> set (take n ys)" "b \<in> set ys - set (take n ys)"
  shows "f a \<le> f b"
proof -
  have "ys = take n ys @ drop n ys" by simp
  with assms(3) have b: "b \<in> set (drop n ys)"
    by (metis DiffD1 DiffD2 UnE set_append)
  from assms(1) have "sorted (map f (take n ys) @ map f (drop n ys))"
    by (simp flip: map_append)
  then have "\<forall>x \<in> set (map f (take n ys)). \<forall>y \<in> set (map f (drop n ys)). x \<le> y"
    by (simp add: sorted_append)
  with assms(2) b show ?thesis by auto
qed

text \<open>
  C5, amended. The analyser reports at most ten assets, each with more than three
  distinct downstream assets over POWERS, CONNECTS_TO, FEEDS_DATA within depth 3: all of
  them when there are at most ten, else ten of them whose scores are not below the score
  of any asset left out. A reported asset's score is its dependent count, plus 10 for the
  types UPS, Router, NetworkSwitch, plus 5 for the statuses warning, degraded; its
  severity is critical above 20, high above 10, else medium; the list is in descending
  order of score.
\<close>

theorem critical_paths_top10:
  "\<exists>sel. analyze_critical_paths g = map (criticalPath g) sel \<and>
     distinct sel \<and> set sel \<subseteq> set (significant g) \<and>
     length sel = min 10 (length (significant g)) \<and>
     (\<forall>i j. i < j \<and> j < length sel \<longrightarrow> spec_score g (sel ! j) \<le> spec_score g (sel ! i)) \<and>
     (\<forall>c \<in> set (significant g) - set sel. \<forall>c' \<in> set sel. spec_score g c \<le> spec_score g c') \<and>
     (\<forall>c \<in> set sel.
        s_asset (criticalPath g c) = a_name (assets g ! c) \<and>
        s_dependentCount (criticalPath g c) = dependentCount g c \<and>
        3 < dependentCount g c \<and>
        s_criticalityScore (criticalPath g c) = spec_score g c \<and>
        s_severity (criticalPath g c) = spec_severity (spec_score g c))"
proof -
  let ?f = "\<lambda>c. - int (spec_score g c)"
  let ?ys = "sort_key ?f (significant g)"
  let ?sel = "take 10 ?ys"
  have d0: "distinct (significant g)" by (simp add: significant_def nodes_def)
  then have "distinct ?ys" by simp
  then have d: "distinct ?sel" by (rule distinct_take)
  have sub: "set ?sel \<subseteq> set (significant g)"
    using set_take_subset [of 10 ?ys] by simp
  have len: "length ?sel = min 10 (length (significant g))" by (simp add: min.commute)
  have srt: "sorted (map ?f ?ys)" by (rule sorted_sort_key)
  have "sorted (take 10 (map ?f ?ys))" using srt by (rule sorted_wrt_take)
  then have srt_sel: "sorted (map ?f ?sel)" by (simp only: take_map)
  have ord: "spec_score g (?sel ! j) \<le> spec_score g (?sel ! i)" if "i < j" "j < length ?sel" for i j
  proof -
    from that have "map ?f ?sel ! i \<le> map ?f ?sel ! j"
      using srt_sel by (intro sorted_nth_mono) auto
    with that show ?thesis by simp
  qed
  have rest: "spec_score g c \<le> spec_score g c'"
    if "c \<in> set (significant g) - set ?sel" "c' \<in> set ?sel" for c c'
  proof -
    from that(1) have "c \<in> set ?ys - set ?sel" by simp
    with srt that(2) have "?f c' \<le> ?f c" by (rule top_of_sorted)
    then show ?thesis by simp
  qed
  have fields: "s_asset (criticalPath g c) = a_name (assets g ! c) \<and>
        s_dependentCount (criticalPath g c) = dependentCount g c \<and>
        3 < dependentCount g c \<and>
        s_criticalityScore (criticalPath g c) = spec_score g c \<and>
        s_severity (criticalPath g c) = spec_severity (spec_score g c)" if "c \<in> set ?sel" for c
  proof -
    from that sub have "c \<in> set (significant g)" by blast
    then have "3 < dependentCount g c" by (simp add: significant_def)
    with criticalPath_fields [of g c] show ?thesis by simp
  qed
  show ?thesis
    apply (rule exI [of _ ?sel])
    apply (intro conjI allI impI ballI)
    apply (rule analyze_critical_paths_alt)
    apply (rule d)
    apply (rule sub)
    apply (rule len)
    apply (rule ord; simp)
    apply (rule rest; assumption)
    apply (rule fields [THEN conjunct1]; assumption)
    apply (rule fields [THEN conjunct2, THEN conjunct1]; assumption)
    apply (rule fields [THEN conjunct2, THEN conjunct2, THEN conjunct1]; assumption)
    apply (rule fields [THEN conjunct2, THEN conjunct2, THEN conjunct2, THEN conjunct1]; assumption)
    apply (rule fields [THEN conjunct2, THEN conjunct2, THEN conjunct2, THEN conjunct2]; assumption)
    done
qed

lemma ring_significant: "significant ring = [0, 1, 2, 3, 4, 5, 6, 7, 8, 9, 10]"
  by code_simp

text \<open>
  C5, as the claim states it, fails: eleven assets of the ring have more than three
  distinct downstream assets within depth 3, and ten are reported.
\<close>

theorem critical_paths_counterexample:
  "length (analyze_critical_paths ring) = 10 \<and> length (significant ring) = 11"
  by (simp add: length_analyze_critical_paths ring_significant)

theorem critical_paths_top10_witness:
  "significant ring = [0, 1, 2, 3, 4, 5, 6, 7, 8, 9, 10] \<and>
   (\<exists>sel. analyze_critical_paths ring = map (criticalPath ring) sel \<and>
      distinct sel \<and> set sel \<subseteq> {0, 1, 2, 3, 4, 5, 6, 7, 8, 9, 10} \<and> length sel = 10 \<and>
      (\<forall>c \<in> {0, 1, 2, 3, 4, 5, 6, 7, 8, 9, 10} - set sel. \<forall>c' \<in> set sel.
         spec_score ring c \<le> spec_score ring c') \<and>
      (\<forall>c \<in> set sel. 3 < dependentCount ring c \<and>
         s_criticalityScore (criticalPath ring c) = spec_score ring c))"
proof -
  from critical_paths_top10 [of ring] obtain sel where
    sel: "analyze_critical_paths ring = map (criticalPath ring) sel"
      "distinct sel" "set sel \<subseteq> set (significant ring)"
      "length sel = min 10 (length (significant ring))"
      "\<forall>c \<in> set (significant ring) - set sel. \<forall>c' \<in> set sel.
         spec_score ring c \<le> spec_score ring c'"
      "\<forall>c \<in> set sel. 3 < dependentCount ring c \<and>
         s_criticalityScore (criticalPath ring c) = spec_score ring c"
    by blast
  have "analyze_critical_paths ring = map (criticalPath ring) sel \<and>
      distinct sel \<and> set sel \<subseteq> {0, 1, 2, 3, 4, 5, 6, 7, 8, 9, 10} \<and> length sel = 10 \<and>
      (\<forall>c \<in> {0, 1, 2, 3, 4, 5, 6, 7, 8, 9, 10} - set sel. \<forall>c' \<in> set sel.
         spec_score ring c \<le> spec_score ring c') \<and>
      (\<forall>c \<in> set sel. 3 < dependentCount ring c \<and>
         s_criticalityScore (criticalPath ring c) = spec_score ring c)"
    using sel unfolding ring_significant by simp
  then show ?thesis using ring_significant by blast
qed

section \<open>Properties of the drift detector\<close>

lemmas drift_defs = detect_drifts_def status_drift_def ip_drift_def version_drift_def
  checksum_drift_def zone_drift_def

lemma detect_same: "detect_drifts X X = ([], ''none'', 0)"
  by (simp add: drift_defs)

lemma detect_compared:
  "compared intended = compared actual \<Longrightarrow> detect_drifts intended actual = ([], ''none'', 0)"
  by (simp add: drift_defs compared_def)

text \<open>
  C9. A configuration compared with itself has no mismatch and severity none; and in the
  batch, an asset whose intended configuration agrees with the observed one on the five
  compared fields (the status up to case) adds no record to the drift list and is not
  counted as drifted.
\<close>

theorem drift_reflexive:
  "detect_drifts X X = ([], ''none'', 0) \<and>
   (\<forall>rng now st actual.
      compared (fst (get_gitops_config_for_asset rng (drawn st) (c_name actual) (c_type actual)))
        = compared actual \<longrightarrow>
      drift_records (drift_iteration rng now actual st) = drift_records st \<and>
      total_drifted (drift_iteration rng now actual st) = total_drifted st)"
proof (intro conjI allI impI)
  show "detect_drifts X X = ([], ''none'', 0)" by (rule detect_same)
next
  fix rng :: "nat \<Rightarrow> nat" and now :: string and st :: drift_loop and actual :: config
  assume h: "compared (fst (get_gitops_config_for_asset rng (drawn st) (c_name actual) (c_type actual))) = compared actual"
  obtain intended k where e: "get_gitops_config_for_asset rng (drawn st) (c_name actual) (c_type actual) = (intended, k)"
    by (cases "get_gitops_config_for_asset rng (drawn st) (c_name actual) (c_type actual)")
  from h e have "detect_drifts intended actual = ([], ''none'', 0)"
    by (simp add: detect_compared)
  with e show "drift_records (drift_iteration rng now actual st) = drift_records st"
    "total_drifted (drift_iteration rng now actual st) = total_drifted st"
    by (simp_all add: drift_iteration_def)
qed

theorem drift_reflexive_witness:
  "compared (fst (get_gitops_config_for_asset (\<lambda>k. 0) (drawn empty_loop)
               (c_name (plc_observed ''RUNNING'')) (c_type (plc_observed ''RUNNING''))))
     = compared (plc_observed ''RUNNING'') \<and>
   drift_records (drift_iteration (\<lambda>k. 0) ''now'' (plc_observed ''RUNNING'') empty_loop) = [] \<and>
   detect_drifts plc_intended plc_intended = ([], ''none'', 0)"
proof -
  have c: "compared (fst (get_gitops_config_for_asset (\<lambda>k. 0) (drawn empty_loop)
               (c_name (plc_observed ''RUNNING'')) (c_type (plc_observed ''RUNNING''))))
     = compared (plc_observed ''RUNNING'')"
    by (simp add: compared_def plc_observed_def get_gitops_config_for_asset_def
        gitops_configs_def lower_def lower_char_def)
  from drift_reflexive [of plc_intended] c show ?thesis
    by (simp add: empty_loop_def)
qed


lemma rank_simps [simp]:
  "rank ''none'' = 0" "rank ''medium'' = 1" "rank ''high'' = 2" "rank ''critical'' = 3"
  by (simp_all add: rank_def)
















section \<open>Determinism of the drift detector\<close>








end
